theory Spec2Isabelle
  imports Complex_Main "HOL-Library.Word"
begin

section \<open>Data model (src/types.ts)\<close>

text \<open>
  JavaScript numbers are modelled exactly: counts, indices and the weight seed are
  mathematical integers, lengths and coordinates are reals. Rounding of IEEE doubles is
  outside this model. The record fields \<open>id\<close>, \<open>x\<close> and \<open>y\<close> of the source are
  written \<open>layer_id\<close>, \<open>node_id\<close>, \<open>link_id\<close>, \<open>node_x\<close> and \<open>node_y\<close>.
\<close>

record LayerConfig =
  layer_id :: string
  neurons :: int

datatype Direction = Horizontal | Vertical

datatype Arrowheads = ArrowNone | ArrowEmpty | ArrowSolid

record VisualSettings =
  edgeColor :: string
  useBezier :: bool
  nodeDiameter :: real
  nodeColor :: string
  nodeBorderColor :: string
  layerSpacing :: real
  direction :: Direction
  showBias :: bool
  showLabels :: bool
  arrowheads :: Arrowheads
  weightSeed :: int

section \<open>Graph data (src/components/NetworkGraph.tsx)\<close>

record Dimensions =
  width :: real
  height :: real

record Node =
  node_id :: string
  layerIndex :: nat
  neuronIndex :: nat
  node_x :: real
  node_y :: real
  isBias :: bool

record Link =
  link_id :: string
  source :: Node
  target :: Node
  weight :: real

record Graph =
  nodes :: "Node list"
  links :: "Link list"

subsection \<open>Template literals: decimal rendering of an integer\<close>

definition digitChar :: "nat \<Rightarrow> char" where
  "digitChar d = ''0123456789'' ! d"

function toStringNat :: "nat \<Rightarrow> string" where
  "toStringNat n =
     (if n < 10 then [digitChar n]
      else toStringNat (n div 10) @ [digitChar (n mod 10)])"
  by pat_completeness auto
termination
  by (relation "measure id") auto

declare toStringNat.simps [simp del]

text \<open>
  \<open>Number.prototype.toString\<close> on a safe integer (magnitude below \<open>2^53\<close>), where
  the result is the plain decimal expansion. Every index and count that the interface can
  produce lies in that range.
\<close>

definition toString :: "int \<Rightarrow> string" where
  "toString v = (if v < 0 then CHR ''-'' # toStringNat (nat (- v)) else toStringNat (nat v))"

subsection \<open>The layout computation (the \<open>useMemo\<close> body, lines 46 to 131)\<close>

text \<open>\<open>Math.max\<close> of a spread array; \<open>None\<close> stands for \<open>-Infinity\<close>, its value on no arguments.\<close>

definition mathMax :: "int list \<Rightarrow> int option" where
  "mathMax vs = (case vs of [] \<Rightarrow> None | v # rest \<Rightarrow> Some (fold max rest v))"

definition layoutLength :: "LayerConfig list \<Rightarrow> VisualSettings \<Rightarrow> real" where
  "layoutLength layers settings = (real (length layers) - 1) * layerSpacing settings"

definition centerX :: "Dimensions \<Rightarrow> real" where
  "centerX dimensions = width dimensions / 2"

definition centerY :: "Dimensions \<Rightarrow> real" where
  "centerY dimensions = height dimensions / 2"

definition startMainAxis :: "LayerConfig list \<Rightarrow> VisualSettings \<Rightarrow> Dimensions \<Rightarrow> real" where
  "startMainAxis layers settings dimensions =
     (if direction settings = Horizontal
      then centerX dimensions - layoutLength layers settings / 2
      else centerY dimensions - layoutLength layers settings / 2)"

definition seededRandom :: "int \<Rightarrow> real" where
  "seededRandom seed = (let x = sin (real_of_int seed) * 10000 in x - of_int \<lfloor>x\<rfloor>)"

definition effectiveCount :: "LayerConfig list \<Rightarrow> VisualSettings \<Rightarrow> nat \<Rightarrow> LayerConfig \<Rightarrow> int" where
  "effectiveCount layers settings layerIdx layer =
     (let neuronCount = neurons layer in
      if showBias settings \<and> int layerIdx \<noteq> int (length layers) - 1
      then neuronCount + 1
      else neuronCount)"

text \<open>The body of the inner \<open>for\<close> loop: the node pushed for index \<open>i\<close> of a layer.\<close>

definition mkNode ::
  "LayerConfig list \<Rightarrow> VisualSettings \<Rightarrow> Dimensions \<Rightarrow> nat \<Rightarrow> LayerConfig \<Rightarrow> nat \<Rightarrow> Node" where
  "mkNode layers settings dimensions layerIdx layer i =
     (let isHoriz = (direction settings = Horizontal);
          count = effectiveCount layers settings layerIdx layer;
          nodeSpacing = nodeDiameter settings * 2.5;
          layerHeight = (real_of_int count - 1) * nodeSpacing;
          layerMainPos = startMainAxis layers settings dimensions
                           + real layerIdx * layerSpacing settings;
          bias = (showBias settings \<and> int layerIdx \<noteq> int (length layers) - 1
                    \<and> int i = count - 1);
          layerCrossPos = (if isHoriz then centerY dimensions else centerX dimensions)
                            - layerHeight / 2 + real i * nodeSpacing;
          x = (if isHoriz then layerMainPos else layerCrossPos);
          y = (if isHoriz then layerCrossPos else layerMainPos)
      in \<lparr> node_id = toString (int layerIdx) @ ''-'' @ toString (int i),
           layerIndex = layerIdx,
           neuronIndex = i,
           node_x = x,
           node_y = y,
           isBias = bias \<rparr>)"

text \<open>\<open>for (let i = 0; i < effectiveCount; i++) nodes.push(...)\<close>, from a given \<open>i\<close>.\<close>

function nodeLoop ::
  "LayerConfig list \<Rightarrow> VisualSettings \<Rightarrow> Dimensions \<Rightarrow> nat \<Rightarrow> LayerConfig \<Rightarrow> nat
     \<Rightarrow> Node list \<Rightarrow> Node list" where
  "nodeLoop layers settings dimensions layerIdx layer i acc =
     (if int i < effectiveCount layers settings layerIdx layer
      then nodeLoop layers settings dimensions layerIdx layer (Suc i)
             (acc @ [mkNode layers settings dimensions layerIdx layer i])
      else acc)"
  by pat_completeness auto
termination
  by (relation "measure (\<lambda>(layers, settings, dimensions, layerIdx, layer, i, acc).
         nat (effectiveCount layers settings layerIdx layer - int i))") auto

declare nodeLoop.simps [simp del]

text \<open>\<open>layers.forEach((layer, layerIdx) => ...)\<close> over the remaining layers \<open>rest\<close>.\<close>

fun layersForEach ::
  "LayerConfig list \<Rightarrow> VisualSettings \<Rightarrow> Dimensions \<Rightarrow> LayerConfig list \<Rightarrow> nat
     \<Rightarrow> Node list \<Rightarrow> Node list" where
  "layersForEach layers settings dimensions [] layerIdx acc = acc"
| "layersForEach layers settings dimensions (layer # rest) layerIdx acc =
     layersForEach layers settings dimensions rest (Suc layerIdx)
       (nodeLoop layers settings dimensions layerIdx layer 0 acc)"

text \<open>
  \<open>targets.forEach(target => ...)\<close>: the state is the link array and \<open>weightCounter\<close>.
\<close>

fun targetsForEach :: "Node \<Rightarrow> Node list \<Rightarrow> Link list \<times> int \<Rightarrow> Link list \<times> int" where
  "targetsForEach src [] st = st"
| "targetsForEach src (tgt # rest) (acc, weightCounter) =
     (if \<not> isBias tgt
      then targetsForEach src rest
             (acc @ [\<lparr> link_id = node_id src @ ''->'' @ node_id tgt,
                       source = src,
                       target = tgt,
                       weight = seededRandom weightCounter \<rparr>],
              weightCounter + 1)
      else targetsForEach src rest (acc, weightCounter))"

text \<open>\<open>nodes.forEach(source => ...)\<close> over the remaining sources, \<open>ns\<close> being all nodes.\<close>

fun nodesForEach :: "Node list \<Rightarrow> Node list \<Rightarrow> Link list \<times> int \<Rightarrow> Link list \<times> int" where
  "nodesForEach ns [] st = st"
| "nodesForEach ns (src # rest) st =
     nodesForEach ns rest
       (targetsForEach src (filter (\<lambda>n. layerIndex n = layerIndex src + 1) ns) st)"

definition computeLayout :: "LayerConfig list \<Rightarrow> VisualSettings \<Rightarrow> Dimensions \<Rightarrow> Graph" where
  "computeLayout layers settings dimensions =
     (let maxNeurons = mathMax (map (\<lambda>l. neurons l + (if showBias settings then 1 else 0)) layers);
          ns = layersForEach layers settings dimensions layers 0 [];
          st = nodesForEach ns ns ([], weightSeed settings)
      in \<lparr> nodes = ns, links = fst st \<rparr>)"

subsection \<open>Layer labels (\<open>getLayerLabel\<close>, \<open>getSuperscript\<close> and the label rendering)\<close>

text \<open>
  A JavaScript string is a sequence of UTF-16 code units. The labels leave ASCII
  (the sign U+2208 and the superscript digits), so label text is a list of 16-bit words;
  identifiers stay ASCII and are plain strings.
\<close>

type_synonym utf16 = "16 word list"

definition fromAscii :: "string \<Rightarrow> utf16" where
  "fromAscii s = map (\<lambda>c. of_nat (of_char c)) s"

text \<open>The string of the ten superscript digits, U+2070, U+00B9, U+00B2, U+00B3, U+2074 to U+2079.\<close>

definition supers :: utf16 where
  "supers = [0x2070, 0x00B9, 0x00B2, 0x00B3, 0x2074, 0x2075, 0x2076, 0x2077, 0x2078, 0x2079]"

definition isDigit :: "char \<Rightarrow> bool" where
  "isDigit c = (48 \<le> (of_char c :: nat) \<and> (of_char c :: nat) \<le> 57)"

text \<open>\<open>parseInt\<close> on a one-character string; \<open>None\<close> stands for \<open>NaN\<close>.\<close>

definition parseInt :: "char \<Rightarrow> nat option" where
  "parseInt d = (if isDigit d then Some (of_char d - 48) else None)"

text \<open>
  \<open>num.toString().split('').map(d => supers[parseInt(d)]).join('')\<close>: indexing with
  \<open>NaN\<close> gives \<open>undefined\<close>, which \<open>join\<close> renders as the empty string.
\<close>

definition getSuperscript :: "int \<Rightarrow> utf16" where
  "getSuperscript num =
     concat (map (\<lambda>d. case parseInt d of Some k \<Rightarrow> [supers ! k] | None \<Rightarrow> [])
               (toString num))"

definition getLayerLabel :: "LayerConfig list \<Rightarrow> nat \<Rightarrow> int \<Rightarrow> utf16" where
  "getLayerLabel layers idx neuronCount =
     (if idx = 0
      then fromAscii ''Input Layer '' @ [0x2208] @ fromAscii '' R'' @ getSuperscript neuronCount
      else if int idx = int (length layers) - 1
      then fromAscii ''Output Layer '' @ [0x2208] @ fromAscii '' R'' @ getSuperscript neuronCount
      else fromAscii ''Hidden Layer '' @ [0x2208] @ fromAscii '' R'' @ getSuperscript neuronCount)"

record Label =
  label_key :: string
  label_x :: real
  label_y :: real
  label_text :: utf16

text \<open>
  The callback of \<open>layers.map((layer, idx) => ...)\<close> at lines 233 to 265; \<open>None\<close> is
  the \<open>null\<close> returned for a layer without nodes.
\<close>

definition layerLabel ::
  "LayerConfig list \<Rightarrow> VisualSettings \<Rightarrow> Node list \<Rightarrow> nat \<Rightarrow> LayerConfig \<Rightarrow> Label option" where
  "layerLabel layers settings ns idx layer =
     (let layerNodes = filter (\<lambda>n. layerIndex n = idx) ns in
      if length layerNodes = 0 then None
      else
        let xs = map node_x layerNodes;
            ys = map node_y layerNodes;
            labelX = (if direction settings = Horizontal then hd xs
                      else Max (set xs) + nodeDiameter settings + 80);
            labelY = (if direction settings = Horizontal
                      then Max (set ys) + nodeDiameter settings + 30
                      else hd ys)
        in Some \<lparr> label_key = ''label-'' @ toString (int idx),
                  label_x = labelX,
                  label_y = labelY,
                  label_text = getLayerLabel layers idx (neurons layer) \<rparr>)"

text \<open>\<open>settings.showLabels && layers.map(...)\<close>; \<open>None\<close> is the \<open>false\<close> that renders nothing.\<close>

definition layerLabels ::
  "LayerConfig list \<Rightarrow> VisualSettings \<Rightarrow> Dimensions \<Rightarrow> Label option list option" where
  "layerLabels layers settings dimensions =
     (if showLabels settings
      then Some (map (\<lambda>(idx, layer).
                   layerLabel layers settings (nodes (computeLayout layers settings dimensions))
                     idx layer)
                 (enumerate 0 layers))
      else None)"

section \<open>Editing a layer (src/components/Sidebar.tsx)\<close>

text \<open>
  The layer configurations are JavaScript objects, and the \<open>layers\<close> array holds
  references to them. What an edit does to a snapshot held elsewhere depends on that
  sharing, so the objects live in a store and an array is a list of references.
\<close>

type_synonym ref = nat

type_synonym heap = "ref \<rightharpoonup> LayerConfig"

datatype jsError = TypeError

text \<open>What a holder of the array \<open>layers\<close> reads through the store.\<close>

definition readLayers :: "heap \<Rightarrow> ref list \<Rightarrow> LayerConfig option list" where
  "readLayers h layers = map h layers"

text \<open>
  \<open>updateLayerNeuron\<close>, lines 25 to 30. The spread \<open>[...layers]\<close> builds a new array
  with the same references; the assignment writes to the object behind
  \<open>newLayers[index]\<close>. The result is the store after the call and the array handed to
  \<open>onLayerChange\<close>. Assigning to a property of \<open>undefined\<close> throws a \<open>TypeError\<close>.
\<close>

definition updateLayerNeuron ::
  "heap \<Rightarrow> ref list \<Rightarrow> nat \<Rightarrow> int \<Rightarrow> jsError + heap \<times> ref list" where
  "updateLayerNeuron h layers index v =
     (let newLayers = layers in
      if index < length newLayers
      then (case h (newLayers ! index) of
              Some obj \<Rightarrow>
                Inr (h(newLayers ! index \<mapsto> obj\<lparr>neurons := max 1 (min 50 v)\<rparr>), newLayers)
            | None \<Rightarrow> Inl TypeError)
      else Inl TypeError)"

section \<open>Initial values (src/types.ts and the component state)\<close>

definition DEFAULT_LAYERS :: "LayerConfig list" where
  "DEFAULT_LAYERS =
     [\<lparr> layer_id = ''l1'', neurons = 18 \<rparr>,
      \<lparr> layer_id = ''l2'', neurons = 12 \<rparr>,
      \<lparr> layer_id = ''l3'', neurons = 10 \<rparr>,
      \<lparr> layer_id = ''l4'', neurons = 1 \<rparr>]"

text \<open>\<open>DEFAULT_SETTINGS\<close> reads the clock for \<open>weightSeed\<close>; the reading is a parameter.\<close>

definition DEFAULT_SETTINGS :: "int \<Rightarrow> VisualSettings" where
  "DEFAULT_SETTINGS now =
     \<lparr> edgeColor = ''#888888'',
       useBezier = True,
       nodeDiameter = 20,
       nodeColor = ''#ffffff'',
       nodeBorderColor = ''#333333'',
       layerSpacing = 200,
       direction = Horizontal,
       showBias = False,
       showLabels = True,
       arrowheads = ArrowNone,
       weightSeed = now \<rparr>"

text \<open>The initial \<open>useState\<close> value of \<open>dimensions\<close> in \<open>NetworkGraph\<close>.\<close>

definition initialDimensions :: Dimensions where
  "initialDimensions = \<lparr> width = 800, height = 600 \<rparr>"

text \<open>The default layers as four objects in the store, at the references 0 to 3.\<close>

definition defaultHeap :: heap where
  "defaultHeap = [0 \<mapsto> DEFAULT_LAYERS ! 0, 1 \<mapsto> DEFAULT_LAYERS ! 1,
                  2 \<mapsto> DEFAULT_LAYERS ! 2, 3 \<mapsto> DEFAULT_LAYERS ! 3]"

text \<open>A two-layer network with three and two neurons, with bias units shown.\<close>

definition exampleLayers :: "LayerConfig list" where
  "exampleLayers = [\<lparr> layer_id = ''a'', neurons = 3 \<rparr>, \<lparr> layer_id = ''b'', neurons = 2 \<rparr>]"

definition exampleSettings :: VisualSettings where
  "exampleSettings = (DEFAULT_SETTINGS 0)\<lparr>showBias := True\<rparr>"

section \<open>Closed forms used in the proofs\<close>

text \<open>
  None of the definitions of this section is part of the program. They name what the
  loops compute, so that the loops can be replaced by \<open>map\<close> and \<open>concat\<close> in proofs.
\<close>

text \<open>The nodes that the inner loop pushes for one layer.\<close>

definition layerBlock ::
  "LayerConfig list \<Rightarrow> VisualSettings \<Rightarrow> Dimensions \<Rightarrow> nat \<Rightarrow> LayerConfig \<Rightarrow> Node list" where
  "layerBlock layers settings dimensions layerIdx layer =
     map (mkNode layers settings dimensions layerIdx layer)
       [0..<nat (effectiveCount layers settings layerIdx layer)]"

text \<open>The links for a list of (source, target) pairs, the counter starting at \<open>c\<close>.\<close>

fun mkLinks :: "int \<Rightarrow> (Node \<times> Node) list \<Rightarrow> Link list" where
  "mkLinks c [] = []"
| "mkLinks c ((src, tgt) # ps) =
     \<lparr> link_id = node_id src @ ''->'' @ node_id tgt, source = src, target = tgt,
       weight = seededRandom c \<rparr> # mkLinks (c + 1) ps"

definition targetsOf :: "Node list \<Rightarrow> Node \<Rightarrow> Node list" where
  "targetsOf ns src = filter (\<lambda>t. \<not> isBias t) (filter (\<lambda>n. layerIndex n = layerIndex src + 1) ns)"

definition linkPairs :: "Node list \<Rightarrow> Node list \<Rightarrow> (Node \<times> Node) list" where
  "linkPairs ns srcs = concat (map (\<lambda>src. map (Pair src) (targetsOf ns src)) srcs)"

text \<open>A node is before another when its (layer, index) pair is lexicographically smaller.\<close>

definition nodeBefore :: "Node \<Rightarrow> Node \<Rightarrow> bool" where
  "nodeBefore a b =
     (layerIndex a < layerIndex b
      \<or> (layerIndex a = layerIndex b \<and> neuronIndex a < neuronIndex b))"

definition nodeKey :: "Node \<Rightarrow> nat \<times> nat" where
  "nodeKey n = (layerIndex n, neuronIndex n)"

definition idOfKey :: "nat \<times> nat \<Rightarrow> string" where
  "idOfKey p = toStringNat (fst p) @ ''-'' @ toStringNat (snd p)"

text \<open>The value and the digits of a decimal numeral.\<close>

definition digitVal :: "string \<Rightarrow> nat" where
  "digitVal cs = foldl (\<lambda>a c. 10 * a + (of_char c - 48)) 0 cs"

function digitsOf :: "nat \<Rightarrow> nat list" where
  "digitsOf n = (if n < 10 then [n] else digitsOf (n div 10) @ [n mod 10])"
  by pat_completeness auto
termination
  by (relation "measure id") auto

declare digitsOf.simps [simp del]

text \<open>
  The layout computation with the \<open>maxNeurons\<close> binding of line 51 removed, everything
  else as in \<open>computeLayout\<close>.
\<close>

definition computeLayoutWithoutMaxNeurons ::
  "LayerConfig list \<Rightarrow> VisualSettings \<Rightarrow> Dimensions \<Rightarrow> Graph" where
  "computeLayoutWithoutMaxNeurons layers settings dimensions =
     (let ns = layersForEach layers settings dimensions layers 0 [];
          st = nodesForEach ns ns ([], weightSeed settings)
      in \<lparr> nodes = ns, links = fst st \<rparr>)"

section \<open>Lemmas\<close>

subsection \<open>The loops in closed form\<close>

lemma nodeLoop_closed:
  "nodeLoop layers settings dimensions layerIdx layer i acc =
     acc @ map (mkNode layers settings dimensions layerIdx layer)
             [i..<nat (effectiveCount layers settings layerIdx layer)]"
proof (induction layers settings dimensions layerIdx layer i acc rule: nodeLoop.induct)
  case (1 layers settings dimensions layerIdx layer i acc)
  show ?case
  proof (cases "int i < effectiveCount layers settings layerIdx layer")
    case True
    then have lt: "i < nat (effectiveCount layers settings layerIdx layer)" by linarith
    show ?thesis
      using True "1.IH" [OF True] upt_conv_Cons [OF lt]
      by (subst nodeLoop.simps) simp
  next
    case False
    then have "nat (effectiveCount layers settings layerIdx layer) \<le> i" by linarith
    with False show ?thesis
      by (subst nodeLoop.simps) simp
  qed
qed

lemma layersForEach_closed:
  "layersForEach layers settings dimensions rest layerIdx acc =
     acc @ concat (map (\<lambda>(k, layer). layerBlock layers settings dimensions k layer)
                    (enumerate layerIdx rest))"
  by (induction rest arbitrary: layerIdx acc) (simp_all add: nodeLoop_closed layerBlock_def)

lemma mkLinks_append:
  "mkLinks c (ps @ qs) = mkLinks c ps @ mkLinks (c + int (length ps)) qs"
  by (induction ps arbitrary: c) (auto simp: add.assoc)

lemma targetsForEach_closed:
  "targetsForEach src ts (acc, c) =
     (acc @ mkLinks c (map (Pair src) (filter (\<lambda>t. \<not> isBias t) ts)),
      c + int (length (filter (\<lambda>t. \<not> isBias t) ts)))"
  by (induction ts arbitrary: acc c) (auto simp: mkLinks_append)

lemma nodesForEach_closed:
  "nodesForEach ns srcs (acc, c) =
     (acc @ mkLinks c (linkPairs ns srcs), c + int (length (linkPairs ns srcs)))"
  by (induction srcs arbitrary: acc c)
     (auto simp: linkPairs_def targetsOf_def targetsForEach_closed mkLinks_append add.assoc)

lemma nodes_computeLayout:
  "nodes (computeLayout layers settings dimensions) =
     concat (map (\<lambda>(k, layer). layerBlock layers settings dimensions k layer) (enumerate 0 layers))"
  by (simp add: computeLayout_def Let_def layersForEach_closed)

lemma links_computeLayout:
  "links (computeLayout layers settings dimensions) =
     mkLinks (weightSeed settings)
       (linkPairs (nodes (computeLayout layers settings dimensions))
                  (nodes (computeLayout layers settings dimensions)))"
  by (simp add: computeLayout_def Let_def nodesForEach_closed)

subsection \<open>Nodes\<close>

lemma layerIndex_mkNode [simp]:
  "layerIndex (mkNode layers settings dimensions k layer j) = k"
  by (simp add: mkNode_def Let_def)

lemma neuronIndex_mkNode [simp]:
  "neuronIndex (mkNode layers settings dimensions k layer j) = j"
  by (simp add: mkNode_def Let_def)

lemma isBias_mkNode:
  "isBias (mkNode layers settings dimensions k layer j) =
     (showBias settings \<and> int k \<noteq> int (length layers) - 1
        \<and> int j = effectiveCount layers settings k layer - 1)"
  by (simp add: mkNode_def Let_def)

lemma node_id_mkNode:
  "node_id (mkNode layers settings dimensions k layer j) =
     toString (int k) @ ''-'' @ toString (int j)"
  by (simp add: mkNode_def Let_def)

lemma filter_layerBlock:
  "filter (\<lambda>n. layerIndex n = i) (layerBlock layers settings dimensions k layer) =
     (if i = k then layerBlock layers settings dimensions k layer else [])"
  by (auto simp: layerBlock_def filter_empty_conv)

lemma filter_layer_concat:
  "filter (\<lambda>n. layerIndex n = i)
     (concat (map (\<lambda>(k, layer). layerBlock layers settings dimensions k layer)
                (enumerate idx rest))) =
   (if idx \<le> i \<and> i < idx + length rest
    then layerBlock layers settings dimensions i (rest ! (i - idx)) else [])"
proof (induction rest arbitrary: idx)
  case Nil
  then show ?case by auto
next
  case (Cons l rest)
  show ?case
  proof (cases "i = idx")
    case True
    with Cons.IH [of "Suc idx"] show ?thesis by (simp add: filter_layerBlock)
  next
    case False
    then show ?thesis by (auto simp: Cons.IH filter_layerBlock nth_Cons' Suc_diff_Suc)
  qed
qed

lemma filter_layer_nodes:
  "filter (\<lambda>n. layerIndex n = i) (nodes (computeLayout layers settings dimensions)) =
     (if i < length layers then layerBlock layers settings dimensions i (layers ! i) else [])"
  by (simp add: nodes_computeLayout filter_layer_concat)

lemma length_layerBlock:
  "length (layerBlock layers settings dimensions k layer) =
     nat (effectiveCount layers settings k layer)"
  by (simp add: layerBlock_def)

lemma sum_list_enumerate:
  "sum_list (map f (enumerate idx xs)) = (\<Sum>i<length xs. f (idx + i, xs ! i) :: 'a :: comm_monoid_add)"
proof (induction xs arbitrary: idx)
  case Nil
  then show ?case by simp
next
  case (Cons x xs)
  have "(\<Sum>i<Suc (length xs). f (idx + i, (x # xs) ! i)) =
        f (idx, x) + (\<Sum>i<length xs. f (Suc idx + i, xs ! i))"
    by (subst sum.lessThan_Suc_shift) simp
  then show ?case by (simp add: Cons.IH del: sum.lessThan_Suc)
qed

lemma length_nodes:
  "length (nodes (computeLayout layers settings dimensions)) =
     (\<Sum>i<length layers. nat (effectiveCount layers settings i (layers ! i)))"
proof -
  have "length (nodes (computeLayout layers settings dimensions)) =
        sum_list (map (\<lambda>(k, layer). nat (effectiveCount layers settings k layer))
                    (enumerate 0 layers))"
    by (simp add: nodes_computeLayout length_concat comp_def case_prod_unfold
          length_layerBlock)
  then show ?thesis by (simp add: sum_list_enumerate)
qed

lemma effectiveCount_nonneg:
  "0 \<le> neurons layer \<Longrightarrow> 0 \<le> effectiveCount layers settings k layer"
  by (simp add: effectiveCount_def Let_def)

lemma count_nonfinal:
  "(\<Sum>i<n. if Suc i \<noteq> n then 1 else 0) = (n - 1 :: nat)"
  by (cases n) simp_all

subsection \<open>Decimal numerals and identifiers\<close>

lemma of_char_digitChar: "d < 10 \<Longrightarrow> (of_char (digitChar d) :: nat) = 48 + d"
proof -
  assume "d < 10"
  then have "d \<in> {0, 1, 2, 3, 4, 5, 6, 7, 8, 9}" by auto
  then show ?thesis by (auto simp: digitChar_def)
qed

lemma isDigit_digitChar: "d < 10 \<Longrightarrow> isDigit (digitChar d)"
  by (simp add: isDigit_def of_char_digitChar)

lemma isDigit_toStringNat: "c \<in> set (toStringNat n) \<Longrightarrow> isDigit c"
proof (induction n arbitrary: c rule: toStringNat.induct)
  case (1 n)
  show ?case
  proof (cases "n < 10")
    case True
    with "1.prems" show ?thesis
      by (subst (asm) toStringNat.simps) (simp add: isDigit_digitChar)
  next
    case False
    with "1.prems" "1.IH" show ?thesis
      by (subst (asm) toStringNat.simps) (auto simp: isDigit_digitChar)
  qed
qed

lemma digitVal_toStringNat: "digitVal (toStringNat n) = n"
proof (induction n rule: toStringNat.induct)
  case (1 n)
  show ?case
  proof (cases "n < 10")
    case True
    then show ?thesis
      by (subst toStringNat.simps) (simp add: digitVal_def of_char_digitChar)
  next
    case False
    with "1.IH" have "digitVal (toStringNat (n div 10)) = n div 10" by simp
    with False show ?thesis
      by (subst toStringNat.simps) (simp add: digitVal_def of_char_digitChar)
  qed
qed

lemma toStringNat_inj: "toStringNat m = toStringNat n \<Longrightarrow> m = n"
  by (metis digitVal_toStringNat)

lemma toString_int [simp]: "toString (int n) = toStringNat n"
  by (simp add: toString_def)

lemma digits_sep_unique:
  assumes "\<forall>c\<in>set xs. isDigit c" and "\<forall>c\<in>set ys. isDigit c"
    and "\<not> isDigit a" and "\<not> isDigit b"
    and "xs @ a # r = ys @ b # r'"
  shows "xs = ys \<and> a = b \<and> r = r'"
  using assms
proof (induction xs arbitrary: ys)
  case Nil
  then show ?case by (cases ys) auto
next
  case (Cons x xs)
  then show ?case by (cases ys) auto
qed

lemma not_isDigit_minus [simp]: "\<not> isDigit CHR ''-''"
  by (simp add: isDigit_def)

lemma idOfKey_unique:
  assumes "idOfKey p @ r = idOfKey q @ r'"
    and "r = [] \<or> \<not> isDigit (hd r)" and "r' = [] \<or> \<not> isDigit (hd r')"
  shows "p = q \<and> r = r'"
proof -
  have d: "\<forall>c\<in>set (toStringNat n). isDigit c" for n
    by (simp add: isDigit_toStringNat)
  from assms(1) have
    "toStringNat (fst p) @ CHR ''-'' # (toStringNat (snd p) @ r) =
     toStringNat (fst q) @ CHR ''-'' # (toStringNat (snd q) @ r')"
    by (simp add: idOfKey_def)
  from digits_sep_unique [OF d d not_isDigit_minus not_isDigit_minus this]
  have 1: "toStringNat (fst p) = toStringNat (fst q)"
    and 2: "toStringNat (snd p) @ r = toStringNat (snd q) @ r'" by simp_all
  have 3: "toStringNat (snd p) = toStringNat (snd q) \<and> r = r'"
  proof (cases r)
    case Nil
    show ?thesis
    proof (cases r')
      case Nil
      with \<open>r = []\<close> 2 show ?thesis by simp
    next
      case (Cons b t)
      with assms(3) have nb: "\<not> isDigit b" by simp
      from 2 Nil Cons have "toStringNat (snd p) = toStringNat (snd q) @ b # t" by simp
      then have "b \<in> set (toStringNat (snd p))" by simp
      with nb d show ?thesis by blast
    qed
  next
    case (Cons a t)
    with assms(2) have na: "\<not> isDigit a" by simp
    show ?thesis
    proof (cases r')
      case Nil
      from 2 Nil Cons have "toStringNat (snd q) = toStringNat (snd p) @ a # t" by simp
      then have "a \<in> set (toStringNat (snd q))" by simp
      with na d show ?thesis by blast
    next
      case (Cons b u)
      with assms(3) have nb: "\<not> isDigit b" by simp
      from 2 \<open>r = a # t\<close> Cons
      have "toStringNat (snd p) @ a # t = toStringNat (snd q) @ b # u" by simp
      from digits_sep_unique [OF d d na nb this] \<open>r = a # t\<close> Cons show ?thesis by simp
    qed
  qed
  from 1 3 have "fst p = fst q" "snd p = snd q" by (auto dest: toStringNat_inj)
  with 3 show ?thesis by (simp add: prod_eq_iff)
qed

lemma idOfKey_inj: "idOfKey p = idOfKey q \<Longrightarrow> p = q"
  using idOfKey_unique [of p "[]" q "[]"] by simp

lemma linkId_unique:
  assumes "idOfKey p @ ''->'' @ idOfKey q = idOfKey p' @ ''->'' @ idOfKey q'"
  shows "p = p' \<and> q = q'"
proof -
  from idOfKey_unique [OF assms] have "p = p'" and "idOfKey q = idOfKey q'" by simp_all
  then show ?thesis by (simp add: idOfKey_inj)
qed

lemma node_id_layerBlock:
  "n \<in> set (layerBlock layers settings dimensions k layer) \<Longrightarrow> node_id n = idOfKey (nodeKey n)"
  by (auto simp: layerBlock_def node_id_mkNode idOfKey_def nodeKey_def)

lemma node_id_nodes:
  "n \<in> set (nodes (computeLayout layers settings dimensions)) \<Longrightarrow>
     node_id n = idOfKey (nodeKey n)"
  by (auto simp: nodes_computeLayout node_id_layerBlock)

lemma keys_layerBlock:
  "map nodeKey (layerBlock layers settings dimensions k layer) =
     map (Pair k) [0..<nat (effectiveCount layers settings k layer)]"
  by (simp add: layerBlock_def nodeKey_def comp_def)

lemma keys_lower_bound:
  "(a, b) \<in> set (concat (map (\<lambda>(k, layer). map (Pair k) [0..<f k layer]) (enumerate idx rest)))
     \<Longrightarrow> idx \<le> a"
  by (auto simp: in_set_enumerate_eq)

lemma distinct_keys_concat:
  "distinct (concat (map (\<lambda>(k, layer). map (Pair k) [0..<f k layer]) (enumerate idx rest)))"
proof (induction rest arbitrary: idx)
  case Nil
  then show ?case by simp
next
  case (Cons l rest)
  have "distinct (map (Pair idx) [0..<f idx l])"
    by (simp add: distinct_map inj_on_def)
  moreover have "set (map (Pair idx) [0..<f idx l]) \<inter>
      set (concat (map (\<lambda>(k, layer). map (Pair k) [0..<f k layer]) (enumerate (Suc idx) rest))) = {}"
    using keys_lower_bound [of idx _ f "Suc idx" rest] by fastforce
  ultimately show ?case using Cons.IH [of "Suc idx"] by simp
qed

lemma distinct_keys_nodes:
  "distinct (map nodeKey (nodes (computeLayout layers settings dimensions)))"
proof -
  have "map nodeKey (nodes (computeLayout layers settings dimensions)) =
        concat (map (\<lambda>(k, layer). map (Pair k) [0..<nat (effectiveCount layers settings k layer)])
                  (enumerate 0 layers))"
    by (simp add: nodes_computeLayout map_concat comp_def case_prod_unfold keys_layerBlock)
  then show ?thesis by (simp only: distinct_keys_concat)
qed

lemma distinct_nodes: "distinct (nodes (computeLayout layers settings dimensions))"
  using distinct_keys_nodes [of layers settings dimensions] by (simp add: distinct_map)

lemma distinct_node_ids:
  "distinct (map node_id (nodes (computeLayout layers settings dimensions)))"
proof -
  let ?ns = "nodes (computeLayout layers settings dimensions)"
  have eq: "map node_id ?ns = map idOfKey (map nodeKey ?ns)"
    by (simp add: node_id_nodes)
  have "distinct (map idOfKey (map nodeKey ?ns))"
    using distinct_keys_nodes [of layers settings dimensions]
    by (subst distinct_map) (auto simp: inj_on_def dest: idOfKey_inj)
  then show ?thesis by (simp only: eq)
qed

subsection \<open>Links\<close>

lemma length_mkLinks [simp]: "length (mkLinks c ps) = length ps"
  by (induction c ps rule: mkLinks.induct) simp_all

lemma ends_mkLinks: "map (\<lambda>l. (source l, target l)) (mkLinks c ps) = ps"
  by (induction c ps rule: mkLinks.induct) simp_all

lemma link_id_mkLinks:
  "map link_id (mkLinks c ps) = map (\<lambda>(s, t). node_id s @ ''->'' @ node_id t) ps"
  by (induction c ps rule: mkLinks.induct) simp_all

lemma weight_mkLinks:
  "k < length ps \<Longrightarrow> weight (mkLinks c ps ! k) = seededRandom (c + int k)"
proof (induction c ps arbitrary: k rule: mkLinks.induct)
  case (1 c)
  then show ?case by simp
next
  case (2 c src tgt ps)
  then show ?case by (cases k) (simp_all add: add.assoc)
qed

lemma filter_mkLinks:
  "length (filter (\<lambda>l. P (source l, target l)) (mkLinks c ps)) = length (filter P ps)"
  by (induction c ps rule: mkLinks.induct) simp_all

lemma set_mkLinks:
  "l \<in> set (mkLinks c ps) \<Longrightarrow> (source l, target l) \<in> set ps"
  by (induction c ps rule: mkLinks.induct) auto

lemma set_linkPairs:
  "set (linkPairs ns srcs) =
     {(s, t). s \<in> set srcs \<and> t \<in> set ns \<and> layerIndex t = layerIndex s + 1 \<and> \<not> isBias t}"
  by (auto simp: linkPairs_def targetsOf_def)

lemma distinct_linkPairs:
  "distinct srcs \<Longrightarrow> distinct ns \<Longrightarrow> distinct (linkPairs ns srcs)"
proof (induction srcs)
  case Nil
  then show ?case by (simp add: linkPairs_def)
next
  case (Cons s srcs)
  have split: "linkPairs ns (s # srcs) = map (Pair s) (targetsOf ns s) @ linkPairs ns srcs"
    by (simp add: linkPairs_def)
  have "distinct (map (Pair s) (targetsOf ns s))"
    using Cons.prems(2) by (simp add: distinct_map targetsOf_def inj_on_def)
  moreover have "distinct (linkPairs ns srcs)"
    using Cons by simp
  moreover have "set (map (Pair s) (targetsOf ns s)) \<inter> set (linkPairs ns srcs) = {}"
    using Cons.prems(1) by (auto simp: set_linkPairs)
  ultimately show ?case by (simp add: split)
qed

lemma count_distinct:
  "distinct xs \<Longrightarrow> length (filter (\<lambda>y. y = x) xs) = (if x \<in> set xs then 1 else 0)"
  by (induction xs) auto

lemma seededRandom_frac: "seededRandom c = frac (sin (real_of_int c) * 10000)"
  by (simp add: seededRandom_def Let_def frac_def)

lemma sorted_layerBlock:
  "sorted_wrt nodeBefore (layerBlock layers settings dimensions k layer)"
  by (simp add: layerBlock_def sorted_wrt_map nodeBefore_def)

lemma layerIndex_layerBlock:
  "n \<in> set (layerBlock layers settings dimensions k layer) \<Longrightarrow> layerIndex n = k"
  by (auto simp: layerBlock_def)

lemma sorted_concat_layers:
  "sorted_wrt nodeBefore
     (concat (map (\<lambda>(k, layer). layerBlock layers settings dimensions k layer)
                (enumerate idx rest)))"
proof (induction rest arbitrary: idx)
  case Nil
  then show ?case by simp
next
  case (Cons l rest)
  have "nodeBefore a b"
    if "a \<in> set (layerBlock layers settings dimensions idx l)"
      and "b \<in> set (concat (map (\<lambda>(k, layer). layerBlock layers settings dimensions k layer)
                (enumerate (Suc idx) rest)))" for a b
  proof -
    from that(1) have "layerIndex a = idx" by (rule layerIndex_layerBlock)
    moreover from that(2) have "Suc idx \<le> layerIndex b"
      by (auto simp: in_set_enumerate_eq dest: layerIndex_layerBlock)
    ultimately show ?thesis by (simp add: nodeBefore_def)
  qed
  then show ?case
    using Cons.IH [of "Suc idx"] by (simp add: sorted_wrt_append sorted_layerBlock)
qed

lemma shape_nodes:
  assumes "showBias s1 = showBias s2"
  shows "map (\<lambda>n. (layerIndex n, isBias n)) (nodes (computeLayout layers s1 d1)) =
         map (\<lambda>n. (layerIndex n, isBias n)) (nodes (computeLayout layers s2 d2))"
proof -
  have ec: "effectiveCount layers s1 k l = effectiveCount layers s2 k l" for k l
    using assms by (simp add: effectiveCount_def)
  have "map (\<lambda>n. (layerIndex n, isBias n)) (layerBlock layers s1 d1 k l) =
        map (\<lambda>n. (layerIndex n, isBias n)) (layerBlock layers s2 d2 k l)" for k l
    using assms by (simp add: layerBlock_def isBias_mkNode ec)
  then show ?thesis
    by (simp add: nodes_computeLayout map_concat comp_def case_prod_unfold)
qed

lemma length_linkPairs_shape:
  "length (linkPairs ns srcs) =
     sum_list (map (\<lambda>p. length (filter (\<lambda>q. fst q = fst p + 1 \<and> \<not> snd q)
                                   (map (\<lambda>n. (layerIndex n, isBias n)) ns)))
                 (map (\<lambda>n. (layerIndex n, isBias n)) srcs))"
proof -
  have "length (targetsOf ns s) =
        length (filter (\<lambda>q. fst q = layerIndex s + 1 \<and> \<not> snd q)
                  (map (\<lambda>n. (layerIndex n, isBias n)) ns))" for s
    by (simp add: targetsOf_def filter_map comp_def conj_commute)
  then show ?thesis
    by (simp add: linkPairs_def length_concat comp_def)
qed

lemma length_links_shape:
  assumes "showBias s1 = showBias s2"
  shows "length (links (computeLayout layers s1 d1)) = length (links (computeLayout layers s2 d2))"
  by (simp add: links_computeLayout length_linkPairs_shape shape_nodes [OF assms, of layers d1 d2])

lemma weights_mkLinks:
  "map weight (mkLinks c ps) = map (\<lambda>k. seededRandom (c + int k)) [0..<length ps]"
  by (rule nth_equalityI) (simp_all add: weight_mkLinks)

subsection \<open>Coordinates\<close>

lemma mainAxis_mkNode:
  "(if direction settings = Horizontal
    then node_x (mkNode layers settings dimensions k layer j)
    else node_y (mkNode layers settings dimensions k layer j)) =
   startMainAxis layers settings dimensions + real k * layerSpacing settings"
  by (simp add: mkNode_def Let_def)

lemma mainAxis_nodes:
  assumes "n \<in> set (nodes (computeLayout layers settings dimensions))"
  shows "(if direction settings = Horizontal then node_x n else node_y n) =
         startMainAxis layers settings dimensions + real (layerIndex n) * layerSpacing settings"
proof -
  from assms obtain k layer j where "n = mkNode layers settings dimensions k layer j"
    by (auto simp: nodes_computeLayout layerBlock_def)
  then show ?thesis by (simp only: mainAxis_mkNode layerIndex_mkNode)
qed

lemma layerIndex_nodes_less:
  "n \<in> set (nodes (computeLayout layers settings dimensions)) \<Longrightarrow> layerIndex n < length layers"
  by (auto simp: nodes_computeLayout in_set_enumerate_eq dest: layerIndex_layerBlock)

lemma layer_nonempty:
  assumes "i < length layers" and "1 \<le> effectiveCount layers settings i (layers ! i)"
  shows "\<exists>n\<in>set (nodes (computeLayout layers settings dimensions)). layerIndex n = i"
proof -
  have "filter (\<lambda>n. layerIndex n = i) (nodes (computeLayout layers settings dimensions)) \<noteq> []"
    using assms by (simp add: filter_layer_nodes layerBlock_def)
  then show ?thesis by (auto simp: filter_empty_conv)
qed

lemma effectiveCount_pos:
  "1 \<le> neurons layer \<Longrightarrow> 1 \<le> effectiveCount layers settings k layer"
  by (simp add: effectiveCount_def Let_def)

lemma layerIndex_image:
  assumes "\<forall>l\<in>set layers. 1 \<le> neurons l"
  shows "layerIndex ` set (nodes (computeLayout layers settings dimensions)) = {..<length layers}"
proof
  show "layerIndex ` set (nodes (computeLayout layers settings dimensions)) \<subseteq> {..<length layers}"
    by (auto dest: layerIndex_nodes_less)
next
  show "{..<length layers} \<subseteq> layerIndex ` set (nodes (computeLayout layers settings dimensions))"
  proof
    fix i assume "i \<in> {..<length layers}"
    then have i: "i < length layers" by simp
    with assms have "1 \<le> effectiveCount layers settings i (layers ! i)"
      by (simp add: effectiveCount_pos)
    from layer_nonempty [OF i this]
    show "i \<in> layerIndex ` set (nodes (computeLayout layers settings dimensions))"
      by force
  qed
qed

lemma distinct_link_ids:
  "distinct (map link_id (links (computeLayout layers settings dimensions)))"
proof -
  let ?ns = "nodes (computeLayout layers settings dimensions)"
  let ?ps = "linkPairs ?ns ?ns"
  let ?f = "\<lambda>(s, t). node_id s @ ''->'' @ node_id t"
  have dn: "distinct ?ns" by (rule distinct_nodes)
  have dp: "distinct ?ps" using dn by (simp add: distinct_linkPairs)
  have inj_key: "inj_on nodeKey (set ?ns)"
    using distinct_keys_nodes [of layers settings dimensions] by (simp add: distinct_map)
  have "inj_on ?f (set ?ps)"
  proof (rule inj_onI)
    fix p q assume p: "p \<in> set ?ps" and q: "q \<in> set ?ps" and eq: "?f p = ?f q"
    obtain s t where pst: "p = (s, t)" by (cases p)
    obtain s' t' where qst: "q = (s', t')" by (cases q)
    from p q pst qst have mem: "s \<in> set ?ns" "t \<in> set ?ns" "s' \<in> set ?ns" "t' \<in> set ?ns"
      by (simp_all add: set_linkPairs)
    from eq pst qst mem
    have "idOfKey (nodeKey s) @ ''->'' @ idOfKey (nodeKey t) =
          idOfKey (nodeKey s') @ ''->'' @ idOfKey (nodeKey t')"
      by (simp add: node_id_nodes)
    then have "nodeKey s = nodeKey s' \<and> nodeKey t = nodeKey t'"
      by (rule linkId_unique)
    with inj_key mem have "s = s'" "t = t'"
      by (auto dest: inj_onD)
    with pst qst show "p = q" by simp
  qed
  with dp have "distinct (map ?f ?ps)" by (simp add: distinct_map)
  then show ?thesis by (simp only: links_computeLayout link_id_mkLinks)
qed

subsection \<open>Superscripts\<close>

lemma toStringNat_digitsOf: "toStringNat n = map digitChar (digitsOf n)"
proof (induction n rule: digitsOf.induct)
  case (1 n)
  then show ?case
    by (subst toStringNat.simps, subst digitsOf.simps) simp
qed

lemma digitsOf_props:
  "(\<forall>d\<in>set (digitsOf n). d < 10) \<and> digitsOf n \<noteq> []
   \<and> foldl (\<lambda>a d. 10 * a + d) 0 (digitsOf n) = n \<and> (1 \<le> n \<longrightarrow> hd (digitsOf n) \<noteq> 0)"
proof (induction n rule: digitsOf.induct)
  case (1 n)
  show ?case
  proof (cases "n < 10")
    case True
    then show ?thesis by (subst (1 2 3 4) digitsOf.simps) simp
  next
    case False
    with "1.IH" show ?thesis by (subst (1 2 3 4) digitsOf.simps) auto
  qed
qed

lemma parseInt_digitChar: "d < 10 \<Longrightarrow> parseInt (digitChar d) = Some d"
  by (simp add: parseInt_def isDigit_def of_char_digitChar)

lemma superscript_digits:
  "\<forall>d\<in>set ds. d < 10 \<Longrightarrow>
   concat (map (\<lambda>d. case parseInt d of Some k \<Rightarrow> [supers ! k] | None \<Rightarrow> []) (map digitChar ds))
     = map (\<lambda>d. supers ! d) ds"
  by (induction ds) (simp_all add: parseInt_digitChar)

lemma getSuperscript_nonneg:
  "0 \<le> v \<Longrightarrow> getSuperscript v = map (\<lambda>d. supers ! d) (digitsOf (nat v))"
proof -
  assume "0 \<le> v"
  then have "getSuperscript v =
      concat (map (\<lambda>d. case parseInt d of Some k \<Rightarrow> [supers ! k] | None \<Rightarrow> [])
                (map digitChar (digitsOf (nat v))))"
    by (simp only: getSuperscript_def toString_def toStringNat_digitsOf) simp
  also have "\<dots> = map (\<lambda>d. supers ! d) (digitsOf (nat v))"
    using digitsOf_props [of "nat v"] by (intro superscript_digits) blast
  finally show ?thesis .
qed

lemma layerLabel_text:
  "filter (\<lambda>n. layerIndex n = idx) ns \<noteq> [] \<Longrightarrow>
     map_option label_text (layerLabel layers settings ns idx layer) =
       Some (getLayerLabel layers idx (neurons layer))"
  by (simp add: layerLabel_def Let_def)

subsection \<open>The example network, evaluated\<close>

lemma toString_small: "toString 0 = ''0''" "toString 1 = ''1''"
  "toString 2 = ''2''" "toString 3 = ''3''"
  by (simp_all add: toString_def toStringNat.simps digitChar_def)

lemma example_nodes:
  "nodes (computeLayout exampleLayers exampleSettings initialDimensions) =
     [\<lparr> node_id = ''0-0'', layerIndex = 0, neuronIndex = 0, node_x = 300, node_y = 225, isBias = False \<rparr>,
      \<lparr> node_id = ''0-1'', layerIndex = 0, neuronIndex = 1, node_x = 300, node_y = 275, isBias = False \<rparr>,
      \<lparr> node_id = ''0-2'', layerIndex = 0, neuronIndex = 2, node_x = 300, node_y = 325, isBias = False \<rparr>,
      \<lparr> node_id = ''0-3'', layerIndex = 0, neuronIndex = 3, node_x = 300, node_y = 375, isBias = True \<rparr>,
      \<lparr> node_id = ''1-0'', layerIndex = 1, neuronIndex = 0, node_x = 500, node_y = 275, isBias = False \<rparr>,
      \<lparr> node_id = ''1-1'', layerIndex = 1, neuronIndex = 1, node_x = 500, node_y = 325, isBias = False \<rparr>]"
  by (simp add: nodes_computeLayout layerBlock_def exampleLayers_def exampleSettings_def
        DEFAULT_SETTINGS_def initialDimensions_def effectiveCount_def mkNode_def Let_def
        startMainAxis_def layoutLength_def centerX_def centerY_def upt_conv_Cons
        toString_small)

section \<open>The claims\<close>

text \<open>
  C1: for every layer list with non-negative neuron counts, and every settings and
  viewport, the layout has exactly the sum over the layers of \<open>effectiveCount\<close> nodes,
  where \<open>effectiveCount\<close> is the neuron count plus one if \<open>showBias\<close> is set and the
  layer is not the last, and the neuron count otherwise. The nodes of layer \<open>i\<close> are
  \<open>effectiveCount\<close> many, and a node among them is a bias node exactly when a bias node
  was appended and it is the last of the layer. Switching \<open>showBias\<close> from false to
  true adds exactly one node per non-final layer.
\<close>

theorem C1_node_count:
  assumes valid: "\<forall>l\<in>set layers. 0 \<le> neurons l"
  shows
    "int (length (nodes (computeLayout layers settings dimensions))) =
       (\<Sum>i<length layers. effectiveCount layers settings i (layers ! i))
     \<and> (\<forall>i<length layers.
          let ln = filter (\<lambda>n. layerIndex n = i)
                     (nodes (computeLayout layers settings dimensions))
          in int (length ln) = effectiveCount layers settings i (layers ! i)
             \<and> (\<forall>j<length ln.
                  isBias (ln ! j) \<longleftrightarrow>
                    (showBias settings \<and> Suc i \<noteq> length layers \<and> Suc j = length ln)))
     \<and> length (nodes (computeLayout layers (settings\<lparr>showBias := True\<rparr>) dimensions)) =
         length (nodes (computeLayout layers (settings\<lparr>showBias := False\<rparr>) dimensions))
           + (length layers - 1)"
proof (intro conjI allI impI)
  have nn: "0 \<le> effectiveCount layers s i (layers ! i)" if "i < length layers" for i s
    using that valid by (simp add: effectiveCount_nonneg)
  show "int (length (nodes (computeLayout layers settings dimensions))) =
       (\<Sum>i<length layers. effectiveCount layers settings i (layers ! i))"
    by (simp add: length_nodes nn)
next
  fix i assume i: "i < length layers"
  have nn: "0 \<le> effectiveCount layers settings i (layers ! i)"
    using i valid by (simp add: effectiveCount_nonneg)
  show "let ln = filter (\<lambda>n. layerIndex n = i)
                     (nodes (computeLayout layers settings dimensions))
          in int (length ln) = effectiveCount layers settings i (layers ! i)
             \<and> (\<forall>j<length ln.
                  isBias (ln ! j) \<longleftrightarrow>
                    (showBias settings \<and> Suc i \<noteq> length layers \<and> Suc j = length ln))"
    using i nn
    by (auto simp: Let_def filter_layer_nodes length_layerBlock layerBlock_def isBias_mkNode)
next
  let ?T = "settings\<lparr>showBias := True\<rparr>" and ?F = "settings\<lparr>showBias := False\<rparr>"
  have "nat (effectiveCount layers ?T i (layers ! i)) =
        nat (effectiveCount layers ?F i (layers ! i)) + (if Suc i \<noteq> length layers then 1 else 0)"
    if "i < length layers" for i
    using that valid by (auto simp: effectiveCount_def Let_def nat_add_distrib)
  then have "(\<Sum>i<length layers. nat (effectiveCount layers ?T i (layers ! i))) =
        (\<Sum>i<length layers. nat (effectiveCount layers ?F i (layers ! i))
                              + (if Suc i \<noteq> length layers then 1 else 0))"
    by (intro sum.cong) simp_all
  also have "\<dots> = (\<Sum>i<length layers. nat (effectiveCount layers ?F i (layers ! i)))
                    + (length layers - 1)"
    by (simp only: sum.distrib count_nonfinal)
  finally show "length (nodes (computeLayout layers ?T dimensions)) =
         length (nodes (computeLayout layers ?F dimensions)) + (length layers - 1)"
    by (simp only: length_nodes)
qed

theorem C1_node_count_witness:
  "length (nodes (computeLayout DEFAULT_LAYERS ((DEFAULT_SETTINGS 0)\<lparr>showBias := True\<rparr>)
             initialDimensions)) = 44
   \<and> length (nodes (computeLayout DEFAULT_LAYERS ((DEFAULT_SETTINGS 0)\<lparr>showBias := False\<rparr>)
             initialDimensions)) = 41"
proof -
  have h: "\<forall>l\<in>set DEFAULT_LAYERS. 0 \<le> neurons l"
    by (simp add: DEFAULT_LAYERS_def)
  have four: "{..<4::nat} = {0, 1, 2, 3}" by auto
  from C1_node_count [OF h, of "(DEFAULT_SETTINGS 0)\<lparr>showBias := True\<rparr>" initialDimensions]
  show ?thesis
    by (simp add: DEFAULT_LAYERS_def DEFAULT_SETTINGS_def effectiveCount_def four)
qed

text \<open>
  C2: for every layer list with non-negative neuron counts, every link goes from a node
  to a non-bias node of the next layer; every node (bias nodes included) has exactly one
  link to every non-bias node of the next layer; no bias node is a link target; and every
  non-bias node of layer \<open>i + 1\<close> has exactly \<open>effectiveCount\<close> of layer \<open>i\<close>
  incoming links from layer \<open>i\<close>.
\<close>

theorem C2_links:
  assumes valid: "\<forall>l\<in>set layers. 0 \<le> neurons l"
  shows
    "(\<forall>l\<in>set (links (computeLayout layers settings dimensions)).
        source l \<in> set (nodes (computeLayout layers settings dimensions))
        \<and> target l \<in> set (nodes (computeLayout layers settings dimensions))
        \<and> layerIndex (target l) = layerIndex (source l) + 1
        \<and> \<not> isBias (target l))
     \<and> (\<forall>s\<in>set (nodes (computeLayout layers settings dimensions)).
         \<forall>t\<in>set (nodes (computeLayout layers settings dimensions)).
           layerIndex t = layerIndex s + 1 \<and> \<not> isBias t \<longrightarrow>
           length (filter (\<lambda>l. source l = s \<and> target l = t)
                     (links (computeLayout layers settings dimensions))) = 1)
     \<and> (\<forall>t\<in>set (nodes (computeLayout layers settings dimensions)). \<forall>i.
           layerIndex t = i + 1 \<and> \<not> isBias t \<longrightarrow>
           int (length (filter (\<lambda>l. target l = t \<and> layerIndex (source l) = i)
                          (links (computeLayout layers settings dimensions))))
             = effectiveCount layers settings i (layers ! i))"
proof -
  let ?G = "computeLayout layers settings dimensions"
  let ?ns = "nodes ?G"
  let ?ps = "linkPairs ?ns ?ns"
  have ls: "links ?G = mkLinks (weightSeed settings) ?ps"
    by (rule links_computeLayout)
  have dn: "distinct ?ns" by (rule distinct_nodes)
  have dp: "distinct ?ps" using dn by (simp add: distinct_linkPairs)
  have 1: "\<forall>l\<in>set (links ?G). source l \<in> set ?ns \<and> target l \<in> set ?ns
        \<and> layerIndex (target l) = layerIndex (source l) + 1 \<and> \<not> isBias (target l)"
  proof
    fix l assume "l \<in> set (links ?G)"
    then have "(source l, target l) \<in> set ?ps"
      unfolding ls by (rule set_mkLinks)
    then show "source l \<in> set ?ns \<and> target l \<in> set ?ns
        \<and> layerIndex (target l) = layerIndex (source l) + 1 \<and> \<not> isBias (target l)"
      by (simp add: set_linkPairs)
  qed
  have 2: "\<forall>s\<in>set ?ns. \<forall>t\<in>set ?ns. layerIndex t = layerIndex s + 1 \<and> \<not> isBias t \<longrightarrow>
           length (filter (\<lambda>l. source l = s \<and> target l = t) (links ?G)) = 1"
  proof (intro ballI impI)
    fix s t assume st: "s \<in> set ?ns" "t \<in> set ?ns" "layerIndex t = layerIndex s + 1 \<and> \<not> isBias t"
    have "length (filter (\<lambda>l. source l = s \<and> target l = t) (links ?G)) =
          length (filter (\<lambda>l. (source l, target l) = (s, t)) (links ?G))"
      by simp
    also have "\<dots> = length (filter (\<lambda>p. p = (s, t)) ?ps)"
      unfolding ls by (rule filter_mkLinks)
    also have "\<dots> = 1"
      using st by (simp add: count_distinct [OF dp] set_linkPairs)
    finally show "length (filter (\<lambda>l. source l = s \<and> target l = t) (links ?G)) = 1" .
  qed
  have 3: "\<forall>t\<in>set ?ns. \<forall>i. layerIndex t = i + 1 \<and> \<not> isBias t \<longrightarrow>
           int (length (filter (\<lambda>l. target l = t \<and> layerIndex (source l) = i) (links ?G)))
             = effectiveCount layers settings i (layers ! i)"
  proof (intro ballI allI impI)
    fix t i assume t: "t \<in> set ?ns" and ti: "layerIndex t = i + 1 \<and> \<not> isBias t"
    from t have "filter (\<lambda>n. layerIndex n = i + 1) ?ns \<noteq> []"
      using ti by (auto simp: filter_empty_conv)
    then have "i + 1 < length layers"
      by (simp add: filter_layer_nodes split: if_splits)
    then have i: "i < length layers" by simp
    have "length (filter (\<lambda>l. target l = t \<and> layerIndex (source l) = i) (links ?G)) =
          length (filter (\<lambda>l. (\<lambda>(s, t'). t' = t \<and> layerIndex s = i) (source l, target l)) (links ?G))"
      by simp
    also have "\<dots> = length (filter (\<lambda>(s, t'). t' = t \<and> layerIndex s = i) ?ps)"
      unfolding ls by (rule filter_mkLinks)
    also have "\<dots> = card ({p. (\<lambda>(s, t'). t' = t \<and> layerIndex s = i) p} \<inter> set ?ps)"
      by (rule distinct_length_filter [OF dp])
    also have "{p. (\<lambda>(s, t'). t' = t \<and> layerIndex s = i) p} \<inter> set ?ps =
               (\<lambda>s. (s, t)) ` ({s. layerIndex s = i} \<inter> set ?ns)"
      using t ti by (auto simp: set_linkPairs)
    also have "card \<dots> = card ({s. layerIndex s = i} \<inter> set ?ns)"
      by (rule card_image) (simp add: inj_on_def)
    also have "\<dots> = length (filter (\<lambda>s. layerIndex s = i) ?ns)"
      by (rule distinct_length_filter [OF dn, symmetric])
    also have "\<dots> = nat (effectiveCount layers settings i (layers ! i))"
      using i by (simp add: filter_layer_nodes length_layerBlock)
    finally show "int (length (filter (\<lambda>l. target l = t \<and> layerIndex (source l) = i) (links ?G)))
             = effectiveCount layers settings i (layers ! i)"
      using i valid by (simp add: effectiveCount_nonneg)
  qed
  from 1 2 3 show ?thesis by blast
qed

theorem C2_links_witness:
  "length
     (filter (\<lambda>l. target l = \<lparr> node_id = ''1-0'', layerIndex = 1, neuronIndex = 0,
                               node_x = 500, node_y = 275, isBias = False \<rparr>
                   \<and> layerIndex (source l) = 0)
        (links (computeLayout exampleLayers exampleSettings initialDimensions))) = 4"
proof -
  let ?t = "\<lparr> node_id = ''1-0'', layerIndex = 1, neuronIndex = 0,
              node_x = 500, node_y = 275, isBias = False \<rparr>"
  have h: "\<forall>l\<in>set exampleLayers. 0 \<le> neurons l"
    by (simp add: exampleLayers_def)
  have mem: "?t \<in> set (nodes (computeLayout exampleLayers exampleSettings initialDimensions))"
    by (simp add: example_nodes)
  have "\<forall>t\<in>set (nodes (computeLayout exampleLayers exampleSettings initialDimensions)). \<forall>i.
           layerIndex t = i + 1 \<and> \<not> isBias t \<longrightarrow>
           int (length (filter (\<lambda>l. target l = t \<and> layerIndex (source l) = i)
                          (links (computeLayout exampleLayers exampleSettings initialDimensions))))
             = effectiveCount exampleLayers exampleSettings i (exampleLayers ! i)"
    using C2_links [OF h, of exampleSettings initialDimensions] by (elim conjE)
  from bspec [OF this mem, THEN spec, of 0]
  show ?thesis
    by (simp add: effectiveCount_def exampleLayers_def exampleSettings_def DEFAULT_SETTINGS_def)
qed

text \<open>
  C3: the nodes are in ascending (layer, index) order; the links are in the order of the
  outer loop over all nodes and the inner loop over the non-bias nodes of the next
  layer, in node order; the \<open>k\<close>-th link weight is the fractional part of
  \<open>sin (weightSeed + k) * 10000\<close>; and two layouts of the same layers with the same
  \<open>weightSeed\<close> and \<open>showBias\<close> have the same weight sequence, whatever the other
  settings and the viewport.
\<close>

theorem C3_weights:
  "sorted_wrt (\<lambda>a b. layerIndex a < layerIndex b
                  \<or> (layerIndex a = layerIndex b \<and> neuronIndex a < neuronIndex b))
     (nodes (computeLayout layers settings dimensions))
   \<and> map (\<lambda>l. (source l, target l)) (links (computeLayout layers settings dimensions)) =
       concat (map (\<lambda>s. map (Pair s)
                      (filter (\<lambda>t. \<not> isBias t)
                         (filter (\<lambda>n. layerIndex n = layerIndex s + 1)
                            (nodes (computeLayout layers settings dimensions)))))
                 (nodes (computeLayout layers settings dimensions)))
   \<and> (\<forall>k<length (links (computeLayout layers settings dimensions)).
         weight (links (computeLayout layers settings dimensions) ! k) =
           frac (sin (real_of_int (weightSeed settings + int k)) * 10000))
   \<and> (\<forall>settings' dimensions'.
         weightSeed settings' = weightSeed settings \<and> showBias settings' = showBias settings \<longrightarrow>
         map weight (links (computeLayout layers settings' dimensions')) =
         map weight (links (computeLayout layers settings dimensions)))"
proof (intro conjI allI impI)
  show "sorted_wrt (\<lambda>a b. layerIndex a < layerIndex b
                  \<or> (layerIndex a = layerIndex b \<and> neuronIndex a < neuronIndex b))
     (nodes (computeLayout layers settings dimensions))"
    using sorted_concat_layers [of layers settings dimensions 0 layers]
    by (simp add: nodes_computeLayout nodeBefore_def [abs_def])
next
  show "map (\<lambda>l. (source l, target l)) (links (computeLayout layers settings dimensions)) =
       concat (map (\<lambda>s. map (Pair s)
                      (filter (\<lambda>t. \<not> isBias t)
                         (filter (\<lambda>n. layerIndex n = layerIndex s + 1)
                            (nodes (computeLayout layers settings dimensions)))))
                 (nodes (computeLayout layers settings dimensions)))"
    by (simp only: links_computeLayout ends_mkLinks linkPairs_def targetsOf_def)
next
  fix k assume "k < length (links (computeLayout layers settings dimensions))"
  then show "weight (links (computeLayout layers settings dimensions) ! k) =
           frac (sin (real_of_int (weightSeed settings + int k)) * 10000)"
    by (simp add: links_computeLayout weight_mkLinks seededRandom_frac)
next
  fix settings' :: VisualSettings and dimensions' :: Dimensions
  assume a: "weightSeed settings' = weightSeed settings \<and> showBias settings' = showBias settings"
  then have len: "length (links (computeLayout layers settings' dimensions')) =
             length (links (computeLayout layers settings dimensions))"
    by (simp add: length_links_shape)
  have "map weight (links (computeLayout layers s d)) =
        map (\<lambda>k. seededRandom (weightSeed s + int k)) [0..<length (links (computeLayout layers s d))]"
    for s d
    using weights_mkLinks [of "weightSeed s" "linkPairs (nodes (computeLayout layers s d)) (nodes (computeLayout layers s d))"]
    by (simp add: links_computeLayout)
  with a len show "map weight (links (computeLayout layers settings' dimensions')) =
         map weight (links (computeLayout layers settings dimensions))"
    by simp
qed

theorem C3_weights_witness:
  "weight (links (computeLayout exampleLayers exampleSettings initialDimensions) ! 1) =
     frac (sin 1 * 10000)
   \<and> length (links (computeLayout exampleLayers exampleSettings initialDimensions)) = 8"
proof -
  have len: "length (links (computeLayout exampleLayers exampleSettings initialDimensions)) = 8"
    by (simp add: links_computeLayout example_nodes linkPairs_def targetsOf_def)
  then have "1 < length (links (computeLayout exampleLayers exampleSettings initialDimensions))"
    by simp
  with C3_weights [of exampleLayers exampleSettings initialDimensions]
  have "weight (links (computeLayout exampleLayers exampleSettings initialDimensions) ! 1) =
          frac (sin (real_of_int (weightSeed exampleSettings + int 1)) * 10000)"
    by blast
  with len show ?thesis
    by (simp add: exampleSettings_def DEFAULT_SETTINGS_def)
qed

text \<open>
  C4: after \<open>updateLayerNeuron\<close> on the default layers, a holder of the array that was
  current before the edit reads the new neuron count through it: the edit writes to the
  layer object that the old and the new array share, where the claim has the old
  snapshot unchanged.
\<close>

theorem C4_old_snapshot_mutated:
  "map (map_option neurons) (readLayers defaultHeap [0, 1, 2, 3]) =
     [Some 18, Some 12, Some 10, Some 1]
   \<and> (case updateLayerNeuron defaultHeap [0, 1, 2, 3] 0 5 of
        Inr (h', newLayers) \<Rightarrow> map (map_option neurons) (readLayers h' [0, 1, 2, 3])
      | Inl e \<Rightarrow> []) = [Some 5, Some 12, Some 10, Some 1]"
  by (simp add: updateLayerNeuron_def defaultHeap_def DEFAULT_LAYERS_def readLayers_def)

text \<open>
  C5: for every layer list whose layers have at least one neuron, every node of layer
  \<open>k\<close> has the main-axis coordinate \<open>center - extent / 2 + k * layerSpacing\<close>, with
  \<open>extent = (length layers - 1) * layerSpacing\<close>; nodes of consecutive layers differ by
  exactly \<open>layerSpacing\<close> on the main axis; the main-axis coordinates are exactly these
  values for \<open>k\<close> below the number of layers, and their set is symmetric about the
  center of the viewport on the main axis.
\<close>

theorem C5_main_axis:
  assumes valid: "\<forall>l\<in>set layers. 1 \<le> neurons l"
  shows
    "let ns = nodes (computeLayout layers settings dimensions);
         mainAxis = (\<lambda>n. if direction settings = Horizontal then node_x n else node_y n);
         center = (if direction settings = Horizontal
                   then width dimensions / 2 else height dimensions / 2);
         extent = (real (length layers) - 1) * layerSpacing settings
     in (\<forall>n\<in>set ns.
           mainAxis n = center - extent / 2 + real (layerIndex n) * layerSpacing settings)
      \<and> (\<forall>n\<in>set ns. \<forall>m\<in>set ns.
           layerIndex m = layerIndex n + 1 \<longrightarrow> mainAxis m - mainAxis n = layerSpacing settings)
      \<and> mainAxis ` set ns =
          (\<lambda>k. center - extent / 2 + real k * layerSpacing settings) ` {..<length layers}
      \<and> (\<forall>c\<in>mainAxis ` set ns. 2 * center - c \<in> mainAxis ` set ns)"
proof -
  let ?ns = "nodes (computeLayout layers settings dimensions)"
  let ?main = "\<lambda>n. if direction settings = Horizontal then node_x n else node_y n"
  let ?center = "if direction settings = Horizontal
                 then width dimensions / 2 else height dimensions / 2"
  let ?extent = "(real (length layers) - 1) * layerSpacing settings"
  let ?pos = "\<lambda>k. ?center - ?extent / 2 + real k * layerSpacing settings"
  have start: "startMainAxis layers settings dimensions = ?center - ?extent / 2"
    by (simp add: startMainAxis_def layoutLength_def centerX_def centerY_def)
  have 1: "?main n = ?pos (layerIndex n)" if "n \<in> set ?ns" for n
    using mainAxis_nodes [OF that] by (simp only: start)
  have 2: "?main m - ?main n = layerSpacing settings"
    if "n \<in> set ?ns" "m \<in> set ?ns" "layerIndex m = layerIndex n + 1" for n m
    using 1 [OF that(1)] 1 [OF that(2)] that(3) by (simp add: algebra_simps)
  have "?main ` set ?ns = ?pos ` layerIndex ` set ?ns"
    using 1 by (force simp: image_iff)
  then have 3: "?main ` set ?ns = ?pos ` {..<length layers}"
    by (simp only: layerIndex_image [OF valid])
  have 4: "2 * ?center - c \<in> ?main ` set ?ns" if "c \<in> ?main ` set ?ns" for c
  proof -
    from that 3 obtain k where k: "k < length layers" and c: "c = ?pos k" by auto
    then have "length layers - 1 - k < length layers" by simp
    moreover have "2 * ?center - c = ?pos (length layers - 1 - k)"
      using k by (simp add: c algebra_simps)
    ultimately have "2 * ?center - c \<in> ?pos ` {..<length layers}" by blast
    then show ?thesis by (simp only: 3)
  qed
  show ?thesis
    unfolding Let_def
  proof (intro conjI ballI impI)
    fix n assume "n \<in> set ?ns"
    then show "?main n = ?pos (layerIndex n)" by (rule 1)
  next
    fix n m assume "n \<in> set ?ns" "m \<in> set ?ns" "layerIndex m = layerIndex n + 1"
    then show "?main m - ?main n = layerSpacing settings" by (rule 2)
  next
    show "?main ` set ?ns = ?pos ` {..<length layers}" by (rule 3)
  next
    fix c assume "c \<in> ?main ` set ?ns"
    then show "2 * ?center - c \<in> ?main ` set ?ns" by (rule 4)
  qed
qed

theorem C5_main_axis_witness:
  "node_x ` set (nodes (computeLayout exampleLayers exampleSettings initialDimensions)) =
     {300, 500}"
proof -
  have h: "\<forall>l\<in>set exampleLayers. 1 \<le> neurons l"
    by (simp add: exampleLayers_def)
  have "(\<lambda>n. if direction exampleSettings = Horizontal then node_x n else node_y n) `
          set (nodes (computeLayout exampleLayers exampleSettings initialDimensions)) =
        (\<lambda>k. (if direction exampleSettings = Horizontal
                then width initialDimensions / 2 else height initialDimensions / 2)
               - (real (length exampleLayers) - 1) * layerSpacing exampleSettings / 2
               + real k * layerSpacing exampleSettings) ` {..<length exampleLayers}"
    using C5_main_axis [OF h, of exampleSettings initialDimensions]
    unfolding Let_def by (elim conjE)
  then show ?thesis
    by (simp add: exampleLayers_def exampleSettings_def DEFAULT_SETTINGS_def
          initialDimensions_def lessThan_Suc insert_commute)
qed

text \<open>
  C6: for an empty layer sequence, and any settings and viewport, the layout computation
  returns an empty node sequence and an empty link sequence. The model has no failing
  branch because the source has none: \<open>Math.max()\<close> is \<open>-Infinity\<close>, and both loops
  run zero times.
\<close>

theorem C6_empty_layers:
  "computeLayout [] settings dimensions = \<lparr> nodes = [], links = [] \<rparr>"
  by (simp add: computeLayout_def)

text \<open>
  C7: for every index of a layer, \<open>updateLayerNeuron\<close> succeeds and leaves the neuron
  count of that layer at the value clamped to the range from 1 to 50; 0 gives 1 and 75
  gives 50.
\<close>

theorem C7_clamp:
  assumes "index < length layers" and "set layers \<subseteq> dom h"
  shows "\<exists>h' newLayers obj.
           updateLayerNeuron h layers index v = Inr (h', newLayers)
           \<and> length newLayers = length layers
           \<and> h' (newLayers ! index) = Some obj
           \<and> neurons obj = max 1 (min 50 v)
           \<and> 1 \<le> neurons obj \<and> neurons obj \<le> 50
           \<and> (v = 0 \<longrightarrow> neurons obj = 1)
           \<and> (v = 75 \<longrightarrow> neurons obj = 50)"
proof -
  from assms obtain old where "h (layers ! index) = Some old"
    by (meson domD nth_mem subsetD)
  then show ?thesis
    using assms(1) by (simp add: updateLayerNeuron_def)
qed

theorem C7_clamp_witness:
  "(case updateLayerNeuron defaultHeap [0, 1, 2, 3] 1 75 of
      Inr (h', newLayers) \<Rightarrow> map (map_option neurons) (readLayers h' newLayers)
    | Inl e \<Rightarrow> []) = [Some 18, Some 50, Some 10, Some 1]"
proof -
  have h1: "1 < length [0, 1, 2, 3 :: ref]" by simp
  have h2: "set [0, 1, 2, 3] \<subseteq> dom defaultHeap" by (simp add: defaultHeap_def)
  from C7_clamp [OF h1 h2, of 75] obtain h' newLayers
    where "updateLayerNeuron defaultHeap [0, 1, 2, 3] 1 75 = Inr (h', newLayers)"
    by blast
  then show ?thesis
    by (auto simp: updateLayerNeuron_def defaultHeap_def DEFAULT_LAYERS_def readLayers_def)
qed

text \<open>
  C8: when \<open>showLabels\<close> is set and every neuron count is between 1 and 50, there is
  exactly one label per layer; its text is "Input Layer" for layer 0, "Output Layer"
  for the last layer and "Hidden Layer" otherwise, followed by the sign U+2208, " R" and
  the superscript glyphs of the decimal digits of the layer's own \<open>neurons\<close> value
  (no leading zero, the digits' value is \<open>neurons\<close>), whatever \<open>showBias\<close> is.
\<close>

theorem C8_labels:
  assumes shown: "showLabels settings"
    and valid: "\<forall>l\<in>set layers. 1 \<le> neurons l \<and> neurons l \<le> 50"
  shows
    "\<exists>labels. layerLabels layers settings dimensions = Some labels
       \<and> length labels = length layers
       \<and> (\<forall>idx<length layers. \<exists>label ds.
             labels ! idx = Some label
             \<and> label_text label =
                 fromAscii (if idx = 0 then ''Input Layer ''
                            else if idx = length layers - 1 then ''Output Layer ''
                            else ''Hidden Layer '')
                 @ [0x2208] @ fromAscii '' R'' @ map (\<lambda>d. supers ! d) ds
             \<and> ds \<noteq> [] \<and> hd ds \<noteq> 0 \<and> (\<forall>d\<in>set ds. d < 10)
             \<and> int (foldl (\<lambda>a d. 10 * a + d) 0 ds) = neurons (layers ! idx))"
proof -
  let ?ns = "nodes (computeLayout layers settings dimensions)"
  let ?labels = "map (\<lambda>(idx, layer). layerLabel layers settings ?ns idx layer) (enumerate 0 layers)"
  have 1: "layerLabels layers settings dimensions = Some ?labels"
    using shown by (simp add: layerLabels_def)
  have 2: "length ?labels = length layers" by simp
  have 3: "\<exists>label ds. ?labels ! idx = Some label
             \<and> label_text label =
                 fromAscii (if idx = 0 then ''Input Layer ''
                            else if idx = length layers - 1 then ''Output Layer ''
                            else ''Hidden Layer '')
                 @ [0x2208] @ fromAscii '' R'' @ map (\<lambda>d. supers ! d) ds
             \<and> ds \<noteq> [] \<and> hd ds \<noteq> 0 \<and> (\<forall>d\<in>set ds. d < 10)
             \<and> int (foldl (\<lambda>a d. 10 * a + d) 0 ds) = neurons (layers ! idx)"
    if idx: "idx < length layers" for idx
  proof -
    let ?n = "neurons (layers ! idx)"
    from idx valid have n: "1 \<le> ?n" by simp
    then have ec: "1 \<le> effectiveCount layers settings idx (layers ! idx)"
      by (rule effectiveCount_pos)
    have ne: "length (filter (\<lambda>n. layerIndex n = idx) ?ns) \<noteq> 0"
      using idx ec by (simp add: filter_layer_nodes layerBlock_def)
    have last: "(int idx = int (length layers) - 1) = (idx = length layers - 1)"
      using idx by auto
    from ne obtain label where lab: "layerLabel layers settings ?ns idx (layers ! idx) = Some label"
      and ltext: "label_text label = getLayerLabel layers idx ?n"
      by (simp add: layerLabel_def Let_def)
    have nth: "?labels ! idx = Some label"
      using idx lab by (simp add: nth_enumerate_eq)
    have sup: "getSuperscript ?n = map (\<lambda>d. supers ! d) (digitsOf (nat ?n))"
      using n by (simp add: getSuperscript_nonneg)
    have "label_text label =
            fromAscii (if idx = 0 then ''Input Layer ''
                       else if idx = length layers - 1 then ''Output Layer ''
                       else ''Hidden Layer '')
            @ [0x2208] @ fromAscii '' R'' @ map (\<lambda>d. supers ! d) (digitsOf (nat ?n))"
      by (simp only: ltext getLayerLabel_def last sup) simp
    moreover have "digitsOf (nat ?n) \<noteq> [] \<and> hd (digitsOf (nat ?n)) \<noteq> 0
        \<and> (\<forall>d\<in>set (digitsOf (nat ?n)). d < 10)
        \<and> int (foldl (\<lambda>a d. 10 * a + d) 0 (digitsOf (nat ?n))) = ?n"
      using digitsOf_props [of "nat ?n"] n by simp
    ultimately show ?thesis using nth by blast
  qed
  from 1 2 3 show ?thesis by blast
qed

theorem C8_labels_witness:
  "map_option (map (map_option label_text))
     (layerLabels DEFAULT_LAYERS (DEFAULT_SETTINGS 0) initialDimensions) =
   Some [Some (fromAscii ''Input Layer '' @ [0x2208] @ fromAscii '' R'' @ [0x00B9, 0x2078]),
         Some (fromAscii ''Hidden Layer '' @ [0x2208] @ fromAscii '' R'' @ [0x00B9, 0x00B2]),
         Some (fromAscii ''Hidden Layer '' @ [0x2208] @ fromAscii '' R'' @ [0x00B9, 0x2070]),
         Some (fromAscii ''Output Layer '' @ [0x2208] @ fromAscii '' R'' @ [0x00B9])]"
proof -
  have h1: "showLabels (DEFAULT_SETTINGS 0)"
    by (simp add: DEFAULT_SETTINGS_def)
  have h2: "\<forall>l\<in>set DEFAULT_LAYERS. 1 \<le> neurons l \<and> neurons l \<le> 50"
    by (simp add: DEFAULT_LAYERS_def)
  let ?ns = "nodes (computeLayout DEFAULT_LAYERS (DEFAULT_SETTINGS 0) initialDimensions)"
  have len: "length DEFAULT_LAYERS = 4"
    by (simp add: DEFAULT_LAYERS_def)
  have en: "enumerate 0 DEFAULT_LAYERS =
      [(0, \<lparr> layer_id = ''l1'', neurons = 18 \<rparr>), (1, \<lparr> layer_id = ''l2'', neurons = 12 \<rparr>),
       (2, \<lparr> layer_id = ''l3'', neurons = 10 \<rparr>), (3, \<lparr> layer_id = ''l4'', neurons = 1 \<rparr>)]"
    by (simp add: DEFAULT_LAYERS_def)
  have sup: "getSuperscript 18 = [0x00B9, 0x2078]" "getSuperscript 12 = [0x00B9, 0x00B2]"
    "getSuperscript 10 = [0x00B9, 0x2070]" "getSuperscript 1 = [0x00B9]"
    by (simp_all add: getSuperscript_def toString_def toStringNat.simps digitChar_def
          parseInt_def isDigit_def supers_def)
  have texts: "map_option label_text (layerLabel DEFAULT_LAYERS (DEFAULT_SETTINGS 0) ?ns idx layer) =
      Some (getLayerLabel DEFAULT_LAYERS idx (neurons layer))" if "idx < 4" for idx layer
  proof -
    from that have idx: "idx < length DEFAULT_LAYERS" by (simp add: len)
    with h2 have "1 \<le> effectiveCount DEFAULT_LAYERS (DEFAULT_SETTINGS 0) idx (DEFAULT_LAYERS ! idx)"
      by (simp add: effectiveCount_pos)
    from layer_nonempty [OF idx this, of initialDimensions]
    have "filter (\<lambda>n. layerIndex n = idx) ?ns \<noteq> []"
      by (auto simp: filter_empty_conv)
    then show ?thesis by (rule layerLabel_text)
  qed
  from C8_labels [OF h1 h2, of initialDimensions] show ?thesis
    by (simp add: layerLabels_def h1 en texts getLayerLabel_def len sup)
qed

text \<open>
  C9: the nodes and links do not depend on \<open>maxNeurons\<close>: the layout computation with
  that binding removed returns the same graph as the layout computation as written, for
  every input.
\<close>

theorem C9_maxNeurons_dead:
  "computeLayoutWithoutMaxNeurons layers settings dimensions =
     computeLayout layers settings dimensions"
  by (simp add: computeLayoutWithoutMaxNeurons_def computeLayout_def Let_def)

text \<open>
  C10: in every output of the layout computation the node identifiers are pairwise
  distinct, and so are the link identifiers.
\<close>

theorem C10_distinct_ids:
  "distinct (map node_id (nodes (computeLayout layers settings dimensions)))
   \<and> distinct (map link_id (links (computeLayout layers settings dimensions)))"
  using distinct_node_ids distinct_link_ids by (rule conjI)

end
